theory Spec2Isabelle
  imports Main "HOL-Library.Word"
begin

unbundle bit_operations_syntax

section \<open>Machine types and run-time panics\<close>

text \<open>
  Go's \<open>byte\<close>, \<open>uint16\<close> and \<open>uint32\<close> are words of that width: arithmetic wraps,
  a conversion to a narrower type truncates (\<open>ucast\<close>), a conversion to a wider
  unsigned type zero-extends (\<open>ucast\<close> again). Go's \<open>int\<close> is modelled by \<open>int\<close>:
  the only \<open>int\<close> arithmetic of the colour code is \<open>int(c) * 0xff / int(alpha)\<close>
  on bytes, which stays below \<open>2 ^ 16\<close>.
\<close>

type_synonym byte = "8 word"
type_synonym uint16 = "16 word"
type_synonym uint32 = "32 word"

text \<open>The run-time panics the modelled code can raise.\<close>

datatype panic = DivideByZero | NilPointerDereference | SliceBoundsOutOfRange | MakeSliceLenOutOfRange

definition bind_panic :: "panic + 'a \<Rightarrow> ('a \<Rightarrow> panic + 'b) \<Rightarrow> panic + 'b" where
  "bind_panic m f = (case m of Inl p \<Rightarrow> Inl p | Inr x \<Rightarrow> f x)"

text \<open>
  Integer division of Go: it truncates towards zero, and a zero divisor is the
  run-time panic "integer divide by zero".
\<close>

definition int_quo :: "int \<Rightarrow> int \<Rightarrow> panic + int" where
  "int_quo x y = (if y = 0 then Inl DivideByZero else Inr (sgn x * sgn y * (\<bar>x\<bar> div \<bar>y\<bar>)))"

definition uint32_quo :: "uint32 \<Rightarrow> uint32 \<Rightarrow> panic + uint32" where
  "uint32_quo x y = (if y = 0 then Inl DivideByZero else Inr (x div y))"

section \<open>color.go\<close>

subsection \<open>Colours\<close>

text \<open>
  A value of the interface \<open>color.Color\<close>, by its dynamic type. The twelve types
  that \<open>ToNRGBA\<close> recognises carry their fields; every other implementation
  (\<open>color.RGBA\<close>, \<open>color.RGBA64\<close>, a user type) is \<open>GenericColor\<close>, given by the
  four values its \<open>RGBA()\<close> method returns.
\<close>

datatype color =
    NRGBA byte byte byte byte
  | PtrNRGBA byte byte byte byte
  | NRGBA64 uint16 uint16 uint16 uint16
  | PtrNRGBA64 uint16 uint16 uint16 uint16
  | PtrGray byte
  | Gray byte
  | PtrGray16 uint16
  | Gray16 uint16
  | Alpha byte
  | PtrAlpha byte
  | Alpha16 uint16
  | PtrAlpha16 uint16
  | GenericColor uint32 uint32 uint32 uint32

text \<open>
  The method \<open>RGBA()\<close> of \<open>color.NRGBA\<close> belongs to Go's standard library, which
  is outside the repository. It is modelled as the comment in
  \<open>MultiplyAlphaBytesPreserveColors\<close> describes it: each colour channel is
  \<open>cc * a / 0xff\<close> and the alpha is \<open>aa\<close>, where \<open>xx\<close> is \<open>x | (x << 8)\<close>, all in
  \<open>uint32\<close>.
\<close>

definition NRGBA_RGBA :: "byte \<Rightarrow> byte \<Rightarrow> byte \<Rightarrow> byte \<Rightarrow> uint32 \<times> uint32 \<times> uint32 \<times> uint32" where
  "NRGBA_RGBA R G B A =
     (let r = ucast R; r = r OR push_bit 8 r; r = r * ucast A; r = r div 0xff;
          g = ucast G; g = g OR push_bit 8 g; g = g * ucast A; g = g div 0xff;
          b = ucast B; b = b OR push_bit 8 b; b = b * ucast A; b = b div 0xff;
          a = ucast A; a = a OR push_bit 8 a
      in (r, g, b, a))"

subsection \<open>Removing the premultiplication\<close>

text \<open>
  \<open>UnmultiplyAlpha\<close>, applied to the four values \<open>red, green, blue, alpha\<close> that
  \<open>c.RGBA()\<close> returned. The divisor of the three divisions is \<open>uint32(a)\<close>, where
  \<open>a\<close> is the byte \<open>alpha >> 8\<close>.
\<close>

definition UnmultiplyAlpha :: "uint32 \<Rightarrow> uint32 \<Rightarrow> uint32 \<Rightarrow> uint32 \<Rightarrow> panic + byte \<times> byte \<times> byte \<times> byte" where
  "UnmultiplyAlpha red green blue alpha =
     (let a = (ucast (drop_bit 8 alpha) :: byte) in
      if alpha \<noteq> 0 \<and> alpha \<noteq> 0xffff then
        bind_panic (uint32_quo (red * 0xff) (ucast a)) (\<lambda>qr.
        bind_panic (uint32_quo (green * 0xff) (ucast a)) (\<lambda>qg.
        bind_panic (uint32_quo (blue * 0xff) (ucast a)) (\<lambda>qb.
          Inr (ucast (drop_bit 8 qr), ucast (drop_bit 8 qg), ucast (drop_bit 8 qb), a))))
      else
        Inr (ucast (drop_bit 8 red), ucast (drop_bit 8 green), ucast (drop_bit 8 blue), a))"

definition byte_of_int :: "int \<Rightarrow> byte" where
  "byte_of_int i = word_of_int i"

definition UnmultiplyAlphaBytes :: "byte \<Rightarrow> byte \<Rightarrow> byte \<Rightarrow> byte \<Rightarrow> panic + byte \<times> byte \<times> byte \<times> byte" where
  "UnmultiplyAlphaBytes red green blue alpha =
     (if alpha \<noteq> 0 \<and> alpha \<noteq> 0xff then
        bind_panic (int_quo (uint red * 0xff) (uint alpha)) (\<lambda>qr.
        bind_panic (int_quo (uint green * 0xff) (uint alpha)) (\<lambda>qg.
        bind_panic (int_quo (uint blue * 0xff) (uint alpha)) (\<lambda>qb.
          Inr (byte_of_int qr, byte_of_int qg, byte_of_int qb, alpha))))
      else Inr (red, green, blue, alpha))"

subsection \<open>Premultiplying\<close>

definition MultiplyAlphaBytes :: "byte \<Rightarrow> byte \<Rightarrow> byte \<Rightarrow> byte \<Rightarrow> byte \<times> byte \<times> byte \<times> byte" where
  "MultiplyAlphaBytes red green blue alpha =
     (case NRGBA_RGBA red green blue alpha of
        (ir, ig, ib, ia) \<Rightarrow>
          (ucast (drop_bit 8 ir), ucast (drop_bit 8 ig), ucast (drop_bit 8 ib), ucast (drop_bit 8 ia)))"

definition MultiplyAlphaBytesPreserveColors :: "byte \<Rightarrow> byte \<Rightarrow> byte \<Rightarrow> byte \<Rightarrow> byte \<times> byte \<times> byte \<times> byte" where
  "MultiplyAlphaBytesPreserveColors red green blue alpha =
     (if alpha \<noteq> 0 \<and> alpha \<noteq> 0xff then
        (ucast (drop_bit 8 (((ucast red :: uint32) OR push_bit 8 (ucast red)) * ucast alpha div 0xff)),
         ucast (drop_bit 8 (((ucast green :: uint32) OR push_bit 8 (ucast green)) * ucast alpha div 0xff)),
         ucast (drop_bit 8 (((ucast blue :: uint32) OR push_bit 8 (ucast blue)) * ucast alpha div 0xff)),
         ucast (drop_bit 8 ((ucast alpha :: uint32) OR push_bit 8 (ucast alpha))))
      else (red, green, blue, alpha))"

subsection \<open>Conversion of any colour\<close>

fun ToNRGBA :: "color \<Rightarrow> panic + byte \<times> byte \<times> byte \<times> byte" where
  "ToNRGBA (NRGBA R G B A) = Inr (R, G, B, A)"
| "ToNRGBA (PtrNRGBA R G B A) = Inr (R, G, B, A)"
| "ToNRGBA (NRGBA64 R G B A) =
     Inr (ucast (drop_bit 8 R), ucast (drop_bit 8 G), ucast (drop_bit 8 B), ucast (drop_bit 8 A))"
| "ToNRGBA (PtrNRGBA64 R G B A) =
     Inr (ucast (drop_bit 8 R), ucast (drop_bit 8 G), ucast (drop_bit 8 B), ucast (drop_bit 8 A))"
| "ToNRGBA (PtrGray Y) = Inr (Y, Y, Y, 0xff)"
| "ToNRGBA (Gray Y) = Inr (Y, Y, Y, 0xff)"
| "ToNRGBA (PtrGray16 Y) =
     Inr (ucast (drop_bit 8 Y), ucast (drop_bit 8 Y), ucast (drop_bit 8 Y), 0xff)"
| "ToNRGBA (Gray16 Y) =
     Inr (ucast (drop_bit 8 Y), ucast (drop_bit 8 Y), ucast (drop_bit 8 Y), 0xff)"
| "ToNRGBA (Alpha A) = Inr (0xff, 0xff, 0xff, A)"
| "ToNRGBA (PtrAlpha A) = Inr (0xff, 0xff, 0xff, A)"
| "ToNRGBA (Alpha16 A) = Inr (0xff, 0xff, 0xff, ucast (drop_bit 8 A))"
| "ToNRGBA (PtrAlpha16 A) = Inr (0xff, 0xff, 0xff, ucast (drop_bit 8 A))"
| "ToNRGBA (GenericColor red green blue alpha) = UnmultiplyAlpha red green blue alpha"


section \<open>util.go and image.go: copying pixel buffers\<close>

text \<open>\<open>Min\<close> of util.go, at type \<open>int\<close>.\<close>

definition Min_int :: "int \<Rightarrow> int \<Rightarrow> int" where
  "Min_int x y = (if x < y then x else y)"

text \<open>
  A byte slice is modelled by the list of its elements, its capacity being its length,
  and two slices passed to one call do not share memory. The slice expression
  \<open>s[lo:hi]\<close> panics unless \<open>0 \<le> lo \<le> hi \<le> cap(s)\<close>. Indices are unbounded
  integers: an index beyond the range of a machine \<open>int\<close> is beyond every slice
  length and fails the same check.
\<close>

definition slice :: "'a list \<Rightarrow> int \<Rightarrow> int \<Rightarrow> panic + 'a list" where
  "slice s lo hi =
     (if 0 \<le> lo \<and> lo \<le> hi \<and> hi \<le> int (length s)
      then Inr (take (nat (hi - lo)) (drop (nat lo) s))
      else Inl SliceBoundsOutOfRange)"

text \<open>
  The built-in \<open>copy(dst, src)\<close>: the contents of \<open>dst\<close> afterwards. It copies
  \<open>min(len(dst), len(src))\<close> elements.
\<close>

definition copy_builtin :: "'a list \<Rightarrow> 'a list \<Rightarrow> 'a list" where
  "copy_builtin dst src = (let n = min (length dst) (length src) in take n src @ drop n dst)"

text \<open>
  The body of the loop of \<open>CopyImageLines\<close>,
  \<open>copy(oPix[oIdx:oIdx+lowerStride], iPix[iIdx:iIdx+lowerStride])\<close>: the contents of
  \<open>oPix\<close> afterwards, the destination slice being a window into it.
\<close>

definition copy_line :: "byte list \<Rightarrow> int \<Rightarrow> byte list \<Rightarrow> int \<Rightarrow> int \<Rightarrow> panic + byte list" where
  "copy_line oPix oIdx iPix iIdx lowerStride =
     bind_panic (slice oPix oIdx (oIdx + lowerStride)) (\<lambda>dst.
     bind_panic (slice iPix iIdx (iIdx + lowerStride)) (\<lambda>src.
       Inr (take (nat oIdx) oPix @ copy_builtin dst src @ drop (nat (oIdx + lowerStride)) oPix)))"

text \<open>
  The loop \<open>for iIdx := 0; iIdx < len(iPix); iIdx += iStride\<close>. The code does not
  check that \<open>iStride\<close> is positive, so \<open>iIdx\<close> need not grow and the loop is a
  partial function: \<open>None\<close> is a run that never ends, \<open>Some (Inl p)\<close> a panic,
  \<open>Some (Inr oPix)\<close> the destination buffer at the return.
\<close>

partial_function (option) CopyImageLines_loop ::
  "int \<Rightarrow> int \<Rightarrow> int \<Rightarrow> byte list \<Rightarrow> byte list \<Rightarrow> int \<Rightarrow> int \<Rightarrow> (panic + byte list) option" where
  "CopyImageLines_loop oStride iStride lowerStride iPix oPix oIdx iIdx =
     (if iIdx < int (length iPix) then
        (case copy_line oPix oIdx iPix iIdx lowerStride of
           Inl p \<Rightarrow> Some (Inl p)
         | Inr oPix' \<Rightarrow>
             CopyImageLines_loop oStride iStride lowerStride iPix oPix' (oIdx + oStride) (iIdx + iStride))
      else Some (Inr oPix))"

declare CopyImageLines_loop.simps [code]

definition CopyImageLines :: "byte list \<Rightarrow> int \<Rightarrow> byte list \<Rightarrow> int \<Rightarrow> (panic + byte list) option" where
  "CopyImageLines oPix oStride iPix iStride =
     CopyImageLines_loop oStride iStride (Min_int oStride iStride) iPix oPix 0 0"


section \<open>image.go: images\<close>

text \<open>
  \<open>image.Rectangle\<close> and \<open>image.Rect\<close> of the standard library: the constructor
  swaps the coordinates where needed, so that the minimum is not above the maximum.
\<close>

record Rectangle =
  MinX :: int
  MinY :: int
  MaxX :: int
  MaxY :: int

definition Dx :: "Rectangle \<Rightarrow> int" where
  "Dx r = MaxX r - MinX r"

definition Dy :: "Rectangle \<Rightarrow> int" where
  "Dy r = MaxY r - MinY r"

definition image_Rect :: "int \<Rightarrow> int \<Rightarrow> int \<Rightarrow> int \<Rightarrow> Rectangle" where
  "image_Rect x0 y0 x1 y1 =
     (let (x0, x1) = (if x0 > x1 then (x1, x0) else (x0, x1));
          (y0, y1) = (if y0 > y1 then (y1, y0) else (y0, y1))
      in \<lparr>MinX = x0, MinY = y0, MaxX = x1, MaxY = y1\<rparr>)"

text \<open>The fields of an \<open>image.RGBA\<close> and of an \<open>image.NRGBA\<close>.\<close>

record PixImage =
  Pix :: "byte list"
  Stride :: int
  Rect :: Rectangle

text \<open>
  A value of the interface \<open>image.Image\<close>, by its dynamic type: one of the three
  pointer types the code tests for, \<open>None\<close> being the nil pointer of that type, or a
  value of any other implementation. An \<open>*ebiten.Image\<close> and an image of another
  type are kept abstract (\<open>'e\<close> and \<open>'o\<close>).
\<close>

datatype ('e, 'o) Image =
    EbitenImage "'e option"
  | ImageRGBA "PixImage option"
  | ImageNRGBA "PixImage option"
  | OtherImage 'o

text \<open>
  The methods and constructors the code calls in the standard library and in Ebitengine.
  They are outside the repository and are parameters of the model: the functions below
  take them in a record. Each is taken to return; \<open>Set\<close>, \<open>WritePixels\<close> and
  \<open>ReadPixels\<close> return the object they changed.
\<close>

record ('e, 'o) Library =
  ebiten_Bounds :: "'e \<Rightarrow> Rectangle"
  ebiten_At :: "'e \<Rightarrow> int \<Rightarrow> int \<Rightarrow> color"
  ebiten_Set :: "'e \<Rightarrow> int \<Rightarrow> int \<Rightarrow> color \<Rightarrow> 'e"
  ebiten_ReadPixels :: "'e \<Rightarrow> byte list \<Rightarrow> byte list"
  ebiten_WritePixels :: "'e \<Rightarrow> byte list \<Rightarrow> 'e"
  ebiten_NewImageWithOptions :: "Rectangle \<Rightarrow> bool \<Rightarrow> 'e"
  RGBA_At :: "PixImage \<Rightarrow> int \<Rightarrow> int \<Rightarrow> color"
  RGBA_Set :: "PixImage \<Rightarrow> int \<Rightarrow> int \<Rightarrow> color \<Rightarrow> PixImage"
  NRGBA_At :: "PixImage \<Rightarrow> int \<Rightarrow> int \<Rightarrow> color"
  NRGBA_Set :: "PixImage \<Rightarrow> int \<Rightarrow> int \<Rightarrow> color \<Rightarrow> PixImage"
  NewRGBA :: "Rectangle \<Rightarrow> PixImage"
  NewNRGBA :: "Rectangle \<Rightarrow> PixImage"
  other_Bounds :: "'o \<Rightarrow> Rectangle"
  other_At :: "'o \<Rightarrow> int \<Rightarrow> int \<Rightarrow> color"

text \<open>
  The methods \<open>Bounds\<close> and \<open>At\<close> called through the interface. A method of a
  pointer type reads the fields of its receiver, so a nil receiver panics.
\<close>

fun Bounds :: "('e, 'o) Library \<Rightarrow> ('e, 'o) Image \<Rightarrow> panic + Rectangle" where
  "Bounds L (EbitenImage None) = Inl NilPointerDereference"
| "Bounds L (EbitenImage (Some e)) = Inr (ebiten_Bounds L e)"
| "Bounds L (ImageRGBA None) = Inl NilPointerDereference"
| "Bounds L (ImageRGBA (Some p)) = Inr (Rect p)"
| "Bounds L (ImageNRGBA None) = Inl NilPointerDereference"
| "Bounds L (ImageNRGBA (Some p)) = Inr (Rect p)"
| "Bounds L (OtherImage x) = Inr (other_Bounds L x)"


fun At :: "('e, 'o) Library \<Rightarrow> ('e, 'o) Image \<Rightarrow> int \<Rightarrow> int \<Rightarrow> panic + color" where
  "At L (EbitenImage None) x y = Inl NilPointerDereference"
| "At L (EbitenImage (Some e)) x y = Inr (ebiten_At L e x y)"
| "At L (ImageRGBA None) x y = Inl NilPointerDereference"
| "At L (ImageRGBA (Some p)) x y = Inr (RGBA_At L p x y)"
| "At L (ImageNRGBA None) x y = Inl NilPointerDereference"
| "At L (ImageNRGBA (Some p)) x y = Inr (NRGBA_At L p x y)"
| "At L (OtherImage i) x y = Inr (other_At L i x y)"

text \<open>\<open>xOImg.Set(x, y, c)\<close> on a pointer \<open>xOImg\<close> of one of the three types.\<close>

fun Set_ptr :: "('i \<Rightarrow> int \<Rightarrow> int \<Rightarrow> color \<Rightarrow> 'i) \<Rightarrow> 'i option \<Rightarrow> int \<Rightarrow> int \<Rightarrow> color \<Rightarrow> panic + 'i option" where
  "Set_ptr setter None x y c = Inl NilPointerDereference"
| "Set_ptr setter (Some i) x y c = Inr (Some (setter i x y c))"

text \<open>A counting loop whose body may panic: the loop stops at the first panic.\<close>

fun for_range :: "int list \<Rightarrow> (int \<Rightarrow> 's \<Rightarrow> panic + 's) \<Rightarrow> 's \<Rightarrow> panic + 's" where
  "for_range [] body s = Inr s"
| "for_range (i # is) body s = bind_panic (body i s) (for_range is body)"

text \<open>
  The double loop of \<open>SlowImageCopy\<close>, the same in its three branches:
  \<open>for y := 0; y < height; y++ { for x := 0; x < width; x++ {
  xOImg.Set(x, y, iImg.At(x+left, y+top)) } }\<close>.
\<close>

definition copy_pixels ::
  "('i \<Rightarrow> int \<Rightarrow> int \<Rightarrow> color \<Rightarrow> 'i) \<Rightarrow> ('e, 'o) Library \<Rightarrow> ('e, 'o) Image \<Rightarrow>
   int \<Rightarrow> int \<Rightarrow> int \<Rightarrow> int \<Rightarrow> 'i option \<Rightarrow> panic + 'i option" where
  "copy_pixels setter L iImg left top' width height xOImg =
     for_range [0..height - 1] (\<lambda>y.
       for_range [0..width - 1] (\<lambda>x xOImg.
         bind_panic (At L iImg (x + left) (y + top')) (\<lambda>c. Set_ptr setter xOImg x y c))) xOImg"

text \<open>
  \<open>SlowImageCopy\<close> returns the destination as the copy left it, together with the
  error (\<open>None\<close> is the nil error).
\<close>

definition SlowImageCopy ::
  "('e, 'o) Library \<Rightarrow> ('e, 'o) Image \<Rightarrow> ('e, 'o) Image \<Rightarrow> panic + ('e, 'o) Image \<times> string option" where
  "SlowImageCopy L oImg iImg =
     bind_panic (Bounds L iImg) (\<lambda>ib.
     bind_panic (Bounds L oImg) (\<lambda>ob.
       let left = MinX ib; top' = MinY ib; width = Dx ob; height = Dy ob in
       case oImg of
         ImageRGBA xOImg \<Rightarrow>
           bind_panic (copy_pixels (RGBA_Set L) L iImg left top' width height xOImg)
             (\<lambda>xOImg. Inr (ImageRGBA xOImg, None))
       | ImageNRGBA xOImg \<Rightarrow>
           bind_panic (copy_pixels (NRGBA_Set L) L iImg left top' width height xOImg)
             (\<lambda>xOImg. Inr (ImageNRGBA xOImg, None))
       | EbitenImage xOImg \<Rightarrow>
           bind_panic (copy_pixels (ebiten_Set L) L iImg left top' width height xOImg)
             (\<lambda>xOImg. Inr (EbitenImage xOImg, None))
       | OtherImage x \<Rightarrow>
           Inr (oImg, Some ''SlowImageCopy only knows how to write to images of type *ebiten.Image, *image.NRGBA, and *image.RGBA. We got a different type instead.'')))"

text \<open>\<open>make([]byte, n)\<close> and the dereference of a pointer.\<close>

definition make_bytes :: "int \<Rightarrow> panic + byte list" where
  "make_bytes n = (if n < 0 then Inl MakeSliceLenOutOfRange else Inr (replicate (nat n) 0))"

fun deref :: "'a option \<Rightarrow> panic + 'a" where
  "deref None = Inl NilPointerDereference"
| "deref (Some x) = Inr x"

text \<open>
  \<open>CopyImage\<close>. The result is \<open>None\<close> when the loop of \<open>CopyImageLines\<close> does not
  end. In the last branch of the chain of type assertions the variable \<open>iImg\<close> is
  the one bound by the assertion \<open>iImg, ok := img.(*image.NRGBA)\<close> that has just
  failed: its scope covers the \<open>else\<close> branch, and its value is the zero value of
  \<open>*image.NRGBA\<close>, the nil pointer.
\<close>

definition CopyImage ::
  "('e, 'o) Library \<Rightarrow> ('e, 'o) Image \<Rightarrow> bool \<Rightarrow> (panic + ('e, 'o) Image) option" where
  "CopyImage L img mipmaps =
     (case Bounds L img of
        Inl p \<Rightarrow> Some (Inl p)
      | Inr b \<Rightarrow>
          let left = MinX b; top' = MinY b; width = MaxX b - left; height = MaxY b - top';
              rect = image_Rect 0 0 width height
          in (case img of
            EbitenImage eImg \<Rightarrow>
              Some (bind_panic (make_bytes (4 * width * height)) (\<lambda>pixelBytes.
                    bind_panic (deref eImg) (\<lambda>e.
                      let pixelBytes = ebiten_ReadPixels L e pixelBytes;
                          cEImg = ebiten_NewImageWithOptions L rect (\<not> mipmaps);
                          cEImg = ebiten_WritePixels L cEImg pixelBytes
                      in Inr (EbitenImage (Some cEImg)))))
          | ImageRGBA iImg \<Rightarrow>
              (let oImg = NewRGBA L rect in
               case deref iImg of
                 Inl p \<Rightarrow> Some (Inl p)
               | Inr i \<Rightarrow>
                   if Stride i = Stride oImg
                   then Some (Inr (ImageRGBA (Some (oImg\<lparr>Pix := copy_builtin (Pix oImg) (Pix i)\<rparr>))))
                   else map_option
                          (\<lambda>r. bind_panic r (\<lambda>oPix. Inr (ImageRGBA (Some (oImg\<lparr>Pix := oPix\<rparr>)))))
                          (CopyImageLines (Pix oImg) (Stride oImg) (Pix i) (Stride i)))
          | ImageNRGBA iImg \<Rightarrow>
              (let oImg = NewNRGBA L rect in
               case deref iImg of
                 Inl p \<Rightarrow> Some (Inl p)
               | Inr i \<Rightarrow>
                   if Stride i = Stride oImg
                   then Some (Inr (ImageNRGBA (Some (oImg\<lparr>Pix := copy_builtin (Pix oImg) (Pix i)\<rparr>))))
                   else map_option
                          (\<lambda>r. bind_panic r (\<lambda>oPix. Inr (ImageNRGBA (Some (oImg\<lparr>Pix := oPix\<rparr>)))))
                          (CopyImageLines (Pix oImg) (Stride oImg) (Pix i) (Stride i)))
          | OtherImage x \<Rightarrow>
              (let iImg = (None :: PixImage option);
                   oImg = NewRGBA L rect
               in Some (bind_panic (SlowImageCopy L (ImageRGBA (Some oImg)) (ImageNRGBA iImg))
                          (\<lambda>(oImg, err). Inr oImg)))))"

section \<open>Notions used to state the properties\<close>

text \<open>
  The scaling of one colour channel as the specification words it:
  \<open>floor(((c | (c << 8)) * a / 255) >> 8)\<close>, on natural numbers.
\<close>

definition scaled_channel :: "nat \<Rightarrow> nat \<Rightarrow> nat" where
  "scaled_channel c a = drop_bit 8 ((c OR push_bit 8 c) * a div 255)"

definition premultiply_channel :: "byte \<Rightarrow> byte \<Rightarrow> byte" where
  "premultiply_channel c a = of_nat (scaled_channel (unat c) (unat a))"

text \<open>
  The unscaling of one colour channel as the specification words it: \<open>c * 255 / a\<close>
  with truncating division, cut to a byte.
\<close>

definition unmultiply_channel :: "byte \<Rightarrow> byte \<Rightarrow> byte" where
  "unmultiply_channel c a = of_nat (unat c * 255 div unat a)"

text \<open>The premultiplication invariant of a pixel: no colour channel exceeds the alpha.\<close>

definition premultiplied :: "byte \<times> byte \<times> byte \<times> byte \<Rightarrow> bool" where
  "premultiplied p = (case p of (r, g, b, a) \<Rightarrow> r \<le> a \<and> g \<le> a \<and> b \<le> a)"

text \<open>Two channel values that differ by at most one.\<close>

definition within_one :: "byte \<Rightarrow> byte \<Rightarrow> bool" where
  "within_one x y = (\<bar>uint x - uint y\<bar> \<le> 1)"

text \<open>
  An interface value that holds a nil pointer, and the images whose dynamic type is
  one of the three that \<open>SlowImageCopy\<close> can write to.
\<close>

fun is_nil :: "('e, 'o) Image \<Rightarrow> bool" where
  "is_nil (EbitenImage p) = (p = None)"
| "is_nil (ImageRGBA p) = (p = None)"
| "is_nil (ImageNRGBA p) = (p = None)"
| "is_nil (OtherImage x) = False"

fun supports_Set :: "('e, 'o) Image \<Rightarrow> bool" where
  "supports_Set (EbitenImage p) = True"
| "supports_Set (ImageRGBA p) = True"
| "supports_Set (ImageNRGBA p) = True"
| "supports_Set (OtherImage x) = False"

text \<open>
  The outcome of a line copy of \<open>h\<close> rows: the result \<open>res\<close> is as long as the
  destination \<open>oPix\<close> was; for each row \<open>k < h\<close> its bytes \<open>k * oStride + c\<close>,
  \<open>c < min oStride iStride\<close>, are the bytes \<open>k * iStride + c\<close> of the source \<open>iPix\<close>;
  every byte outside these row windows is the byte \<open>oPix\<close> had.
\<close>

definition rows_copied :: "nat \<Rightarrow> nat \<Rightarrow> nat \<Rightarrow> byte list \<Rightarrow> byte list \<Rightarrow> byte list \<Rightarrow> bool" where
  "rows_copied h oStride iStride oPix iPix res =
     (length res = length oPix \<and>
      (\<forall>k<h. \<forall>c<min oStride iStride. res ! (k * oStride + c) = iPix ! (k * iStride + c)) \<and>
      (\<forall>j<length oPix.
         (\<forall>k<h. \<not> (k * oStride \<le> j \<and> j < k * oStride + min oStride iStride))
           \<longrightarrow> res ! j = oPix ! j))"

section \<open>Bytes and the doubling \<open>c | (c << 8)\<close>\<close>

lemma unat_byte_lt: "unat (c::byte) < 256"
proof -
  have "unat c < 2 ^ LENGTH(8)" by (rule unsigned_less)
  then show ?thesis by simp
qed

lemma byte_le_255: "(c::byte) \<le> 0xff"
  using unat_byte_lt [of c] by (simp add: word_le_nat_alt)

lemma unat_ucast_byte: "unat (ucast (c::byte) :: uint32) = unat c"
  using unat_byte_lt [of c] by (simp add: unsigned_ucast_eq take_bit_nat_eq_self)

lemma dbl_disjoint: "(ucast (c::byte) :: uint32) AND push_bit 8 (ucast c) = 0"
  by (rule bit_eqI) (auto simp: bit_simps dest: bit_imp_le_length)

lemma unat_dbl: "unat ((ucast (c::byte) :: uint32) OR push_bit 8 (ucast c)) = 257 * unat c"
proof -
  have "unat ((ucast c :: uint32) + push_bit 8 (ucast c)) = (unat c + 256 * unat c) mod 2 ^ 32"
    by (simp add: unat_word_ariths push_bit_eq_mult unat_ucast_byte mod_simps)
  also have "\<dots> = 257 * unat c"
    using unat_byte_lt [of c] by simp
  finally show ?thesis
    by (simp add: disjunctive_add_eq_or [OF dbl_disjoint, symmetric])
qed

lemma unat_dbl_mul:
  "unat (((ucast (c::byte) :: uint32) OR push_bit 8 (ucast c)) * ucast (a::byte)) = 257 * unat c * unat a"
proof -
  have "unat c * unat a \<le> 255 * 255"
    using unat_byte_lt [of c] unat_byte_lt [of a]
    by (intro mult_le_mono) simp_all
  then have "257 * unat c * unat a < 2 ^ 32" by simp
  then show ?thesis
    by (simp add: unat_word_ariths(2) unat_dbl unat_ucast_byte)
qed

lemma nat_dbl:
  assumes "c < 256"
  shows "(c::nat) OR push_bit 8 c = 257 * c"
proof -
  have c: "take_bit 8 c = c" using assms by (simp add: take_bit_nat_eq_self)
  have "take_bit 8 c AND push_bit 8 c = 0"
    by (rule bit_eqI) (auto simp: bit_simps)
  then have "c AND push_bit 8 c = 0" by (simp only: c)
  then have "c OR push_bit 8 c = c + push_bit 8 c"
    by (rule disjunctive_add_eq_or [symmetric])
  then show ?thesis by (simp add: push_bit_eq_mult)
qed

lemma scaled_channel_arith: "c < 256 \<Longrightarrow> scaled_channel c a = 257 * c * a div 255 div 256"
  by (simp add: scaled_channel_def nat_dbl drop_bit_eq_div)

lemma scaled_channel_le:
  assumes "c < 256" "a < 256"
  shows "scaled_channel c a \<le> a"
proof -
  have "257 * c * a \<le> 255 * (257 * a)" using assms by simp
  then have "257 * c * a div 255 \<le> 257 * a"
    by (metis div_le_mono nonzero_mult_div_cancel_left zero_neq_numeral)
  then have "257 * c * a div 255 div 256 \<le> 257 * a div 256" by (rule div_le_mono)
  also have "\<dots> \<le> a" using assms(2) by arith
  finally show ?thesis using assms(1) by (simp add: scaled_channel_arith)
qed

lemma unat_premultiply_channel:
  "unat (premultiply_channel c a) = scaled_channel (unat c) (unat a)"
proof -
  have "scaled_channel (unat c) (unat a) \<le> unat a"
    using unat_byte_lt [of c] unat_byte_lt [of a] by (rule scaled_channel_le)
  then have "scaled_channel (unat c) (unat a) < 256" using unat_byte_lt [of a] by simp
  then show ?thesis by (simp add: premultiply_channel_def unat_of_nat)
qed

lemma channel_word_eq:
  "ucast (drop_bit 8 (((ucast (c::byte) :: uint32) OR push_bit 8 (ucast c)) * ucast (a::byte) div 0xff))
     = premultiply_channel c a"
proof (rule word_unat_eq_iff [THEN iffD2])
  have "scaled_channel (unat c) (unat a) \<le> unat a"
    using unat_byte_lt [of c] unat_byte_lt [of a] by (rule scaled_channel_le)
  then have "257 * unat c * unat a div 255 div 256 < 256"
    using unat_byte_lt [of a] unat_byte_lt [of c] by (simp add: scaled_channel_arith)
  then have "unat (ucast (drop_bit 8 (((ucast c :: uint32) OR push_bit 8 (ucast c)) * ucast a div 0xff)) :: byte)
      = 257 * unat c * unat a div 255 div 256"
    by (simp add: unsigned_ucast_eq take_bit_nat_eq_self unat_drop_bit_eq drop_bit_eq_div
        unat_div unat_dbl_mul)
  then show "unat (ucast (drop_bit 8 (((ucast c :: uint32) OR push_bit 8 (ucast c)) * ucast a div 0xff)) :: byte)
      = unat (premultiply_channel c a)"
    using unat_byte_lt [of c] by (simp add: unat_premultiply_channel scaled_channel_arith)
qed

lemma alpha_word_eq:
  "(ucast (drop_bit 8 ((ucast (a::byte) :: uint32) OR push_bit 8 (ucast a))) :: byte) = a"
proof (rule word_unat_eq_iff [THEN iffD2])
  have "unat (drop_bit 8 ((ucast a :: uint32) OR push_bit 8 (ucast a))) = 257 * unat a div 256"
    by (simp add: unat_drop_bit_eq drop_bit_eq_div unat_div unat_dbl)
  also have "\<dots> = unat a" using unat_byte_lt [of a] by arith
  finally show "unat (ucast (drop_bit 8 ((ucast a :: uint32) OR push_bit 8 (ucast a))) :: byte) = unat a"
    using unat_byte_lt [of a]
    by (simp only: unsigned_ucast_eq) (simp add: take_bit_nat_eq_self)
qed

section \<open>The three byte conversions in closed form\<close>

lemma MultiplyAlphaBytes_eq:
  "MultiplyAlphaBytes r g b a =
     (premultiply_channel r a, premultiply_channel g a, premultiply_channel b a, a)"
  unfolding MultiplyAlphaBytes_def NRGBA_RGBA_def Let_def
  by (simp only: channel_word_eq alpha_word_eq prod.case)

lemma MultiplyAlphaBytesPreserveColors_eq:
  "MultiplyAlphaBytesPreserveColors r g b a =
     (if a \<noteq> 0 \<and> a \<noteq> 0xff
      then (premultiply_channel r a, premultiply_channel g a, premultiply_channel b a, a)
      else (r, g, b, a))"
  unfolding MultiplyAlphaBytesPreserveColors_def
  by (simp only: channel_word_eq alpha_word_eq)

lemma premultiply_channel_0: "premultiply_channel c 0 = 0"
  by (simp add: premultiply_channel_def scaled_channel_def)

lemma premultiply_channel_255: "premultiply_channel c 0xff = c"
proof (rule word_unat_eq_iff [THEN iffD2])
  show "unat (premultiply_channel c 0xff) = unat c"
    using unat_byte_lt [of c] by (simp add: unat_premultiply_channel scaled_channel_arith)
qed

lemma premultiply_channel_le: "premultiply_channel c a \<le> a"
  using unat_byte_lt [of c] unat_byte_lt [of a]
  by (simp add: word_le_nat_alt unat_premultiply_channel scaled_channel_le)

lemma int_quo_nonneg: "0 \<le> x \<Longrightarrow> 0 < y \<Longrightarrow> int_quo x y = Inr (x div y)"
  by (cases "x = 0") (simp_all add: int_quo_def sgn_if)

lemma unat_unmultiply_channel:
  "unat (unmultiply_channel c a) = (unat c * 255 div unat a) mod 256"
  by (simp add: unmultiply_channel_def unat_of_nat)

lemma unmultiply_quo:
  assumes "a \<noteq> 0"
  shows "int_quo (uint c * 0xff) (uint a) = Inr (uint c * 255 div uint a) \<and>
         byte_of_int (uint c * 255 div uint a) = unmultiply_channel c a"
proof -
  have "uint a \<noteq> 0" using assms by (simp add: uint_0_iff)
  then have "0 < uint a" using uint_ge_0 [of a] by linarith
  then have "int_quo (uint c * 0xff) (uint a) = Inr (uint c * 255 div uint a)"
    by (simp add: int_quo_nonneg)
  moreover have "uint c * 255 div uint a = int (unat c * 255 div unat a)"
    by (simp add: zdiv_int)
  then have "byte_of_int (uint c * 255 div uint a) = unmultiply_channel c a"
    by (simp add: byte_of_int_def unmultiply_channel_def)
  ultimately show ?thesis by simp
qed

lemma UnmultiplyAlphaBytes_eq:
  "UnmultiplyAlphaBytes r g b a =
     Inr (if a \<noteq> 0 \<and> a \<noteq> 0xff
          then (unmultiply_channel r a, unmultiply_channel g a, unmultiply_channel b a, a)
          else (r, g, b, a))"
  by (simp add: UnmultiplyAlphaBytes_def bind_panic_def unmultiply_quo)


lemma roundtrip_arith:
  assumes "0 < a" "a < 255" "c \<le> a"
  shows "scaled_channel (c * 255 div a) a \<le> c \<and> c \<le> scaled_channel (c * 255 div a) a + 1"
proof -
  define c' where "c' = c * 255 div a"
  define X where "X = c' * a"
  have up: "X \<le> c * 255" unfolding X_def c'_def by (rule div_times_less_eq_dividend)
  have "c * 255 = X + c * 255 mod a" unfolding X_def c'_def by simp
  moreover have "c * 255 mod a < a" using assms(1) by simp
  ultimately have lo: "255 * c \<le> X + 253" using assms(2) by linarith
  have "c * 255 \<le> a * 255" using assms(3) by simp
  then have "c' \<le> 255" unfolding c'_def
    using assms(1) by (metis div_le_mono nonzero_mult_div_cancel_left less_numeral_extra(3))
  then have c': "c' < 256" by simp
  have "257 * X \<le> 255 * (257 * c)" using up by simp
  then have "257 * X div 255 \<le> 257 * c"
    by (metis div_le_mono nonzero_mult_div_cancel_left zero_neq_numeral)
  then have "257 * X div 255 div 256 \<le> 257 * c div 256" by (rule div_le_mono)
  also have "\<dots> \<le> c" using assms by arith
  finally have A: "257 * X div 255 div 256 \<le> c" .
  have "(c - 1) * 256 * 255 \<le> 257 * X" using lo by (cases c) simp_all
  then have "(c - 1) * 256 \<le> 257 * X div 255" by (simp add: less_eq_div_iff_mult_less_eq)
  then have "c - 1 \<le> 257 * X div 255 div 256" by (simp add: less_eq_div_iff_mult_less_eq)
  then have B: "c \<le> 257 * X div 255 div 256 + 1" by simp
  have "scaled_channel c' a = 257 * X div 255 div 256"
    using c' by (simp add: scaled_channel_arith X_def mult.assoc)
  with A B show ?thesis unfolding c'_def by simp
qed

lemma roundtrip_channel:
  assumes "0 < a" "a < 0xff" "c \<le> a"
  shows "within_one (premultiply_channel (unmultiply_channel c a) a) c"
proof -
  have a: "0 < unat a" "unat a < 255" "unat c \<le> unat a"
    using assms by (simp_all add: word_less_nat_alt word_le_nat_alt)
  have "unat c * 255 \<le> unat a * 255" using a(3) by simp
  then have "unat c * 255 div unat a \<le> 255"
    using a(1) by (metis div_le_mono nonzero_mult_div_cancel_left less_numeral_extra(3))
  then have "unat (unmultiply_channel c a) = unat c * 255 div unat a"
    by (simp add: unat_unmultiply_channel)
  then have "unat (premultiply_channel (unmultiply_channel c a) a)
      = scaled_channel (unat c * 255 div unat a) (unat a)"
    by (simp add: unat_premultiply_channel)
  with roundtrip_arith [OF a]
  have "unat (premultiply_channel (unmultiply_channel c a) a) \<le> unat c \<and>
        unat c \<le> unat (premultiply_channel (unmultiply_channel c a) a) + 1"
    by simp
  then show ?thesis unfolding within_one_def uint_nat by linarith
qed

section \<open>Properties of the colour conversions\<close>

text \<open>
  C1. For a premultiplied pixel \<open>(r, g, b, a)\<close> with \<open>0 < a < 255\<close> and every colour
  channel at most \<open>a\<close>, \<open>UnmultiplyAlphaBytes\<close> returns without a panic, and
  \<open>MultiplyAlphaBytesPreserveColors\<close> applied to its result gives back the alpha
  \<open>a\<close> exactly and each colour channel within one of the original.
\<close>

theorem roundtrip_unmultiply_multiply:
  assumes "0 < a" "a < 0xff" "r \<le> a" "g \<le> a" "b \<le> a"
  shows "case UnmultiplyAlphaBytes r g b a of
           Inl p \<Rightarrow> False
         | Inr (r', g', b', a') \<Rightarrow>
             (case MultiplyAlphaBytesPreserveColors r' g' b' a' of
                (r'', g'', b'', a'') \<Rightarrow>
                   a'' = a \<and> within_one r'' r \<and> within_one g'' g \<and> within_one b'' b)"
proof -
  have "a \<noteq> 0" "a \<noteq> 0xff" using assms(1,2) by auto
  then show ?thesis
    using assms
    by (simp add: UnmultiplyAlphaBytes_eq MultiplyAlphaBytesPreserveColors_eq roundtrip_channel)
qed

theorem roundtrip_unmultiply_multiply_witness:
  "(0::byte) < 11 \<and> (11::byte) < 0xff \<and> (3::byte) \<le> 11 \<and> (5::byte) \<le> 11 \<and> (7::byte) \<le> 11 \<and>
   UnmultiplyAlphaBytes 3 5 7 11 = Inr (69, 115, 162, 11) \<and>
   MultiplyAlphaBytesPreserveColors 69 115 162 11 = (2, 4, 7, 11) \<and>
   within_one 2 3 \<and> within_one 4 5 \<and> within_one 7 7"
  using roundtrip_unmultiply_multiply [of 11 3 5 7]
  by (simp add: UnmultiplyAlphaBytes_def MultiplyAlphaBytesPreserveColors_def bind_panic_def
      int_quo_def byte_of_int_def within_one_def)

text \<open>
  C2. At alpha 0, \<open>MultiplyAlphaBytesPreserveColors\<close> returns the colour channels
  unchanged, and \<open>MultiplyAlphaBytes\<close> returns four zeros, whatever the colour
  channels are. At every other alpha the two functions return the same pixel, so they
  differ at alpha 0 only.
\<close>

theorem zero_alpha_preserved_or_discarded:
  "MultiplyAlphaBytesPreserveColors r g b 0 = (r, g, b, 0) \<and>
   MultiplyAlphaBytes r g b 0 = (0, 0, 0, 0) \<and>
   (a \<noteq> 0 \<longrightarrow> MultiplyAlphaBytesPreserveColors r g b a = MultiplyAlphaBytes r g b a)"
  by (simp add: MultiplyAlphaBytesPreserveColors_eq MultiplyAlphaBytes_eq premultiply_channel_0
      premultiply_channel_255)

theorem zero_alpha_preserved_or_discarded_witness:
  "MultiplyAlphaBytesPreserveColors 42 87 197 0 = (42, 87, 197, 0) \<and>
   MultiplyAlphaBytes 42 87 197 0 = (0, 0, 0, 0) \<and>
   (127::byte) \<noteq> 0 \<and>
   MultiplyAlphaBytesPreserveColors 42 87 197 127 = MultiplyAlphaBytes 42 87 197 127"
  using zero_alpha_preserved_or_discarded [of 42 87 197 127]
  by simp

text \<open>
  C3. \<open>UnmultiplyAlphaBytes\<close> never panics. At alpha 0 and at alpha 255 it returns its
  arguments. At every other alpha it returns the alpha and, for each colour channel
  \<open>c\<close>, the byte whose value is \<open>c * 255 / a\<close> (truncating division) modulo 256: no
  clamping. It maps \<open>(100, 100, 100, 100)\<close> to \<open>(255, 255, 255, 100)\<close> and
  \<open>(100, 100, 100, 255)\<close> to itself.
\<close>

theorem UnmultiplyAlphaBytes_cases:
  "(a = 0 \<or> a = 0xff \<longrightarrow> UnmultiplyAlphaBytes r g b a = Inr (r, g, b, a)) \<and>
   (a \<noteq> 0 \<and> a \<noteq> 0xff \<longrightarrow>
      (\<exists>r' g' b'. UnmultiplyAlphaBytes r g b a = Inr (r', g', b', a) \<and>
         unat r' = (unat r * 255 div unat a) mod 256 \<and>
         unat g' = (unat g * 255 div unat a) mod 256 \<and>
         unat b' = (unat b * 255 div unat a) mod 256)) \<and>
   UnmultiplyAlphaBytes 100 100 100 100 = Inr (255, 255, 255, 100) \<and>
   UnmultiplyAlphaBytes 100 100 100 255 = Inr (100, 100, 100, 255)"
  by (simp add: UnmultiplyAlphaBytes_eq unat_unmultiply_channel) (simp add: unmultiply_channel_def)

theorem UnmultiplyAlphaBytes_cases_witness:
  "UnmultiplyAlphaBytes 42 87 197 0 = Inr (42, 87, 197, 0) \<and>
   (100::byte) \<noteq> 0 \<and> (100::byte) \<noteq> 0xff \<and>
   UnmultiplyAlphaBytes 200 100 50 100 = Inr (254, 255, 127, 100) \<and>
   (unat (200::byte) * 255 div unat (100::byte)) mod 256 = 254"
  using UnmultiplyAlphaBytes_cases [of 0 42 87 197] UnmultiplyAlphaBytes_cases [of 100 200 100 50]
  by (simp add: UnmultiplyAlphaBytes_def bind_panic_def int_quo_def byte_of_int_def)

text \<open>
  C5. \<open>UnmultiplyAlpha\<close> on a colour whose \<open>RGBA()\<close> returns \<open>(0, 0, 0, 0x80)\<close>, as
  \<open>color.RGBA64{A: 0x80}\<close> does: the alpha is neither 0 nor \<open>0xffff\<close>, the byte
  \<open>alpha >> 8\<close> is 0, and the division by it panics. \<open>ToNRGBA\<close> reaches the same
  panic through its default case.
\<close>

theorem UnmultiplyAlpha_low_alpha_divides_by_zero:
  "UnmultiplyAlpha 0 0 0 0x80 = Inl DivideByZero \<and>
   ToNRGBA (GenericColor 0 0 0 0x80) = Inl DivideByZero"
  by (simp add: UnmultiplyAlpha_def uint32_quo_def bind_panic_def)

text \<open>
  C6. At every alpha other than 0, \<open>MultiplyAlphaBytesPreserveColors\<close> and
  \<open>MultiplyAlphaBytes\<close> return the same pixel. At alpha 255 it is the input; at the
  other alphas the alpha is kept and each colour channel \<open>c\<close> becomes
  \<open>floor(((c | (c << 8)) * a / 255) >> 8)\<close>. Both map \<open>(51, 153, 204, 85)\<close> to
  \<open>(17, 51, 68, 85)\<close>.
\<close>

theorem multiply_variants_agree:
  assumes "a \<noteq> 0"
  shows "MultiplyAlphaBytesPreserveColors r g b a = MultiplyAlphaBytes r g b a \<and>
         (a = 0xff \<longrightarrow> MultiplyAlphaBytes r g b a = (r, g, b, a)) \<and>
         (a \<noteq> 0xff \<longrightarrow>
            (\<exists>r' g' b'. MultiplyAlphaBytes r g b a = (r', g', b', a) \<and>
               unat r' = scaled_channel (unat r) (unat a) \<and>
               unat g' = scaled_channel (unat g) (unat a) \<and>
               unat b' = scaled_channel (unat b) (unat a))) \<and>
         MultiplyAlphaBytesPreserveColors 51 153 204 85 = (17, 51, 68, 85) \<and>
         MultiplyAlphaBytes 51 153 204 85 = (17, 51, 68, 85)"
proof -
  have "premultiply_channel 51 85 = 17" "premultiply_channel 153 85 = 51"
    "premultiply_channel 204 85 = 68"
    by (simp_all add: premultiply_channel_def scaled_channel_arith)
  then show ?thesis
    using assms
    by (simp add: MultiplyAlphaBytesPreserveColors_eq MultiplyAlphaBytes_eq
        premultiply_channel_255 unat_premultiply_channel)
qed

theorem multiply_variants_agree_witness:
  "(100::byte) \<noteq> 0 \<and> (100::byte) \<noteq> 0xff \<and>
   MultiplyAlphaBytesPreserveColors 255 255 255 100 = MultiplyAlphaBytes 255 255 255 100 \<and>
   MultiplyAlphaBytes 255 255 255 100 = (100, 100, 100, 100) \<and>
   scaled_channel 255 100 = 100 \<and>
   MultiplyAlphaBytes 100 100 100 255 = (100, 100, 100, 255)"
  using multiply_variants_agree [of 100 255 255 255] multiply_variants_agree [of 255 100 100 100]
  by (simp add: MultiplyAlphaBytes_eq premultiply_channel_def scaled_channel_arith)

text \<open>
  C9, as stated: the output of \<open>MultiplyAlphaBytesPreserveColors\<close> satisfies the
  premultiplication invariant for every input. It fails at alpha 0, where the colour
  channels are kept: \<open>(42, 87, 197, 0)\<close> is returned unchanged.
\<close>

theorem preserve_colors_breaks_invariant_at_zero_alpha:
  "\<not> premultiplied (MultiplyAlphaBytesPreserveColors 42 87 197 0)"
  by (simp add: MultiplyAlphaBytesPreserveColors_def premultiplied_def)

text \<open>
  C9, amended: for every input whose alpha is not 0, each colour channel of the output
  of \<open>MultiplyAlphaBytesPreserveColors\<close> is at most the output's alpha.
\<close>

theorem preserve_colors_invariant_nonzero_alpha:
  "a \<noteq> 0 \<Longrightarrow> premultiplied (MultiplyAlphaBytesPreserveColors r g b a)"
  by (simp add: MultiplyAlphaBytesPreserveColors_eq premultiplied_def premultiply_channel_le
      byte_le_255)

theorem preserve_colors_invariant_nonzero_alpha_witness:
  "(85::byte) \<noteq> 0 \<and> premultiplied (MultiplyAlphaBytesPreserveColors 51 153 204 85) \<and>
   (255::byte) \<noteq> 0 \<and> premultiplied (MultiplyAlphaBytesPreserveColors 42 87 197 255)"
  using preserve_colors_invariant_nonzero_alpha [of 85 51 153 204]
    preserve_colors_invariant_nonzero_alpha [of 255 42 87 197]
  by simp

text \<open>
  C10. On the four alpha-only kinds \<open>ToNRGBA\<close> returns the colour channels \<open>0xff\<close>; the
  alpha is the colour's own for \<open>color.Alpha\<close>, and its high byte for
  \<open>color.Alpha16\<close>. An alpha-only colour with alpha \<open>0x80\<close> gives
  \<open>(0xff, 0xff, 0xff, 0x80)\<close>.
\<close>

theorem ToNRGBA_alpha_only:
  "ToNRGBA (Alpha A) = Inr (0xff, 0xff, 0xff, A) \<and>
   ToNRGBA (PtrAlpha A) = Inr (0xff, 0xff, 0xff, A) \<and>
   ToNRGBA (Alpha16 A16) = Inr (0xff, 0xff, 0xff, ucast (drop_bit 8 A16)) \<and>
   ToNRGBA (PtrAlpha16 A16) = Inr (0xff, 0xff, 0xff, ucast (drop_bit 8 A16)) \<and>
   ToNRGBA (Alpha 0x80) = Inr (0xff, 0xff, 0xff, 0x80) \<and>
   ToNRGBA (Alpha16 0x8000) = Inr (0xff, 0xff, 0xff, 0x80)"
  by simp

section \<open>The line copy\<close>

lemma copy_line_ok:
  assumes "oi + lw \<le> length oPix" "ii + lw \<le> length iPix"
  shows "copy_line oPix (int oi) iPix (int ii) (int lw)
           = Inr (take oi oPix @ take lw (drop ii iPix) @ drop (oi + lw) oPix)"
proof -
  have l1: "length (take lw (drop oi oPix)) = lw" using assms(1) by simp
  have l2: "length (take lw (drop ii iPix)) = lw" using assms(2) by simp
  have "slice oPix (int oi) (int oi + int lw) = Inr (take lw (drop oi oPix))"
    using assms(1) by (simp add: slice_def)
  moreover have "slice iPix (int ii) (int ii + int lw) = Inr (take lw (drop ii iPix))"
    using assms(2) by (simp add: slice_def)
  moreover have "copy_builtin (take lw (drop oi oPix)) (take lw (drop ii iPix)) = take lw (drop ii iPix)"
    unfolding copy_builtin_def Let_def l1 l2 using l1 l2 by simp
  moreover have "nat (int oi + int lw) = oi + lw" by simp
  ultimately show ?thesis
    by (simp add: copy_line_def bind_panic_def)
qed

lemma nth_append3:
  assumes "length xs = a" "length ys = b"
  shows "(xs @ ys @ zs) ! j =
           (if j < a then xs ! j else if j < a + b then ys ! (j - a) else zs ! (j - a - b))"
  using assms by (auto simp: nth_append)

lemma written_line_nth:
  assumes "oi + lw \<le> length oPix" "ii + lw \<le> length iPix" "j < length oPix"
  shows "(take oi oPix @ take lw (drop ii iPix) @ drop (oi + lw) oPix) ! j
           = (if oi \<le> j \<and> j < oi + lw then iPix ! (ii + (j - oi)) else oPix ! j)"
proof -
  have l1: "length (take oi oPix) = oi" using assms(1) by simp
  have l2: "length (take lw (drop ii iPix)) = lw" using assms(2) by simp
  note split = nth_append3 [OF l1 l2, of "drop (oi + lw) oPix" j]
  consider "j < oi" | "oi \<le> j" "j < oi + lw" | "oi + lw \<le> j" by linarith
  then show ?thesis
  proof cases
    case 1
    then show ?thesis unfolding split by simp
  next
    case 2
    then have "take lw (drop ii iPix) ! (j - oi) = iPix ! (ii + (j - oi))"
      using assms(2) by simp
    then show ?thesis unfolding split using 2 by simp
  next
    case 3
    then have "drop (oi + lw) oPix ! (j - oi - lw) = oPix ! j"
      using assms(1,3) by simp
    then show ?thesis unfolding split using 3 by simp
  qed
qed

lemma written_line_length:
  assumes "oi + lw \<le> length oPix" "ii + lw \<le> length iPix"
  shows "length (take oi oPix @ take lw (drop ii iPix) @ drop (oi + lw) oPix) = length oPix"
  using assms by simp

lemma loop_rows:
  assumes "lw \<le> os"
    and "length iPix \<le> (k + n) * is"
    and "\<And>r. r < k + n \<Longrightarrow> r * is < length iPix"
    and "\<And>r. r < k + n \<Longrightarrow> r * is + lw \<le> length iPix"
    and "\<And>r. r < k + n \<Longrightarrow> r * os + lw \<le> length oPix"
  shows "\<exists>res. CopyImageLines_loop (int os) (int is) (int lw) iPix oPix (int (k * os)) (int (k * is))
             = Some (Inr res) \<and>
           length res = length oPix \<and>
           (\<forall>r c. k \<le> r \<and> r < k + n \<and> c < lw \<longrightarrow> res ! (r * os + c) = iPix ! (r * is + c)) \<and>
           (\<forall>j < length oPix. (\<forall>r. k \<le> r \<and> r < k + n \<longrightarrow> \<not> (r * os \<le> j \<and> j < r * os + lw))
               \<longrightarrow> res ! j = oPix ! j)"
  using assms
proof (induction n arbitrary: k oPix)
  case 0
  have "\<not> k * is < length iPix" using "0.prems"(2) by simp
  then have "\<not> int (k * is) < int (length iPix)" unfolding of_nat_less_iff .
  then have "CopyImageLines_loop (int os) (int is) (int lw) iPix oPix (int (k * os)) (int (k * is))
      = Some (Inr oPix)"
    by (subst CopyImageLines_loop.simps) (simp only: if_False)
  then show ?case by auto
next
  case (Suc n)
  let ?o' = "take (k * os) oPix @ take lw (drop (k * is) iPix) @ drop (k * os + lw) oPix"
  have ob: "k * os + lw \<le> length oPix" using Suc.prems(5) [of k] by simp
  have ib: "k * is + lw \<le> length iPix" using Suc.prems(4) [of k] by simp
  have len': "length ?o' = length oPix" using ob ib by (rule written_line_length)
  have cl: "copy_line oPix (int (k * os)) iPix (int (k * is)) (int lw) = Inr ?o'"
    using ob ib by (rule copy_line_ok)
  have "k * is < length iPix" using Suc.prems(3) [of k] by simp
  then have guard: "int (k * is) < int (length iPix)"
    by (simp only: of_nat_less_iff)
  have step: "CopyImageLines_loop (int os) (int is) (int lw) iPix oPix (int (k * os)) (int (k * is))
      = CopyImageLines_loop (int os) (int is) (int lw) iPix ?o' (int (Suc k * os)) (int (Suc k * is))"
    apply (subst CopyImageLines_loop.simps)
    apply (simp only: guard cl if_True sum.case)
    apply (simp add: algebra_simps)
    done
  have "\<exists>res. CopyImageLines_loop (int os) (int is) (int lw) iPix ?o' (int (Suc k * os)) (int (Suc k * is))
             = Some (Inr res) \<and>
           length res = length ?o' \<and>
           (\<forall>r c. Suc k \<le> r \<and> r < Suc k + n \<and> c < lw \<longrightarrow> res ! (r * os + c) = iPix ! (r * is + c)) \<and>
           (\<forall>j < length ?o'. (\<forall>r. Suc k \<le> r \<and> r < Suc k + n \<longrightarrow> \<not> (r * os \<le> j \<and> j < r * os + lw))
               \<longrightarrow> res ! j = ?o' ! j)"
  proof (rule Suc.IH [OF Suc.prems(1)])
    show "length iPix \<le> (Suc k + n) * is" using Suc.prems(2) by simp
    show "\<And>r. r < Suc k + n \<Longrightarrow> r * is < length iPix" using Suc.prems(3) by simp
    show "\<And>r. r < Suc k + n \<Longrightarrow> r * is + lw \<le> length iPix" using Suc.prems(4) by simp
    show "\<And>r. r < Suc k + n \<Longrightarrow> r * os + lw \<le> length ?o'"
      using Suc.prems(5) len' by simp
  qed
  then obtain res where
    res: "CopyImageLines_loop (int os) (int is) (int lw) iPix ?o' (int (Suc k * os)) (int (Suc k * is))
             = Some (Inr res)"
    and lres: "length res = length oPix"
    and rows: "\<And>r c. Suc k \<le> r \<Longrightarrow> r < Suc k + n \<Longrightarrow> c < lw \<Longrightarrow> res ! (r * os + c) = iPix ! (r * is + c)"
    and rest: "\<And>j. j < length oPix \<Longrightarrow>
                 (\<forall>r. Suc k \<le> r \<and> r < Suc k + n \<longrightarrow> \<not> (r * os \<le> j \<and> j < r * os + lw))
                 \<Longrightarrow> res ! j = ?o' ! j"
    using len' by auto
  have later: "\<not> (r * os \<le> k * os + c \<and> k * os + c < r * os + lw)" if "Suc k \<le> r" "c < lw" for r c
  proof -
    have "Suc k * os \<le> r * os" using that(1) by (rule mult_le_mono1)
    then show ?thesis using that(2) Suc.prems(1) by simp
  qed
  have rowk: "res ! (k * os + c) = iPix ! (k * is + c)" if "c < lw" for c
  proof -
    have "k * os + c < length oPix" using ob that by simp
    then have "res ! (k * os + c) = ?o' ! (k * os + c)"
      using later [OF _ that] by (intro rest) auto
    also have "\<dots> = iPix ! (k * is + c)"
      using written_line_nth [OF ob ib \<open>k * os + c < length oPix\<close>] that by simp
    finally show ?thesis .
  qed
  have allrows: "res ! (r * os + c) = iPix ! (r * is + c)" if "k \<le> r" "r < k + Suc n" "c < lw" for r c
  proof (cases "r = k")
    case True
    then show ?thesis using rowk that(3) by simp
  next
    case False
    then show ?thesis using that by (intro rows) simp_all
  qed
  have others: "res ! j = oPix ! j"
    if "j < length oPix" "\<forall>r. k \<le> r \<and> r < k + Suc n \<longrightarrow> \<not> (r * os \<le> j \<and> j < r * os + lw)" for j
  proof -
    have "res ! j = ?o' ! j" using that by (intro rest) auto
    also have "\<dots> = oPix ! j"
      using written_line_nth [OF ob ib that(1)] that(2) by auto
    finally show ?thesis .
  qed
  show ?case
    using step res lres allrows others by auto
qed


lemma Min_int_nat: "Min_int (int a) (int b) = int (min a b)"
  by (simp add: Min_int_def min_def)

lemma row_below_length:
  assumes "0 < is"
  shows "r < (n + is - 1) div is \<longleftrightarrow> r * is < (n::nat)"
proof -
  have "r < (n + is - 1) div is \<longleftrightarrow> Suc r \<le> (n + is - 1) div is" by auto
  also have "\<dots> \<longleftrightarrow> Suc r * is \<le> n + is - 1"
    using assms by (simp add: less_eq_div_iff_mult_less_eq)
  also have "\<dots> \<longleftrightarrow> r * is < n" using assms by auto
  finally show ?thesis .
qed

lemma CopyImageLines_empty_source: "CopyImageLines oPix oStride [] iStride = Some (Inr oPix)"
  unfolding CopyImageLines_def by (subst CopyImageLines_loop.simps) simp

section \<open>Properties of the buffer copy\<close>

text \<open>
  C7, as stated: the rows copied are \<open>len(iPix) / iStride\<close> in number, and every
  destination byte outside their windows keeps its value. For a source of 10 bytes
  with stride 8 and a destination of stride 2 the quotient is 1, but the loop runs for
  the offsets 0 and 8: it copies a second row, from the trailing two bytes of the
  source, and the bytes 2 and 3 of the destination, outside the window of row 0,
  change.
\<close>

theorem CopyImageLines_trailing_row_copied:
  "CopyImageLines [99, 99, 99, 99] 2 [1, 2, 3, 4, 5, 6, 7, 8, 9, 10] 8 = Some (Inr [1, 2, 9, 10]) \<and>
   length [1, 2, 3, 4, 5, 6, 7, 8, 9, 10 :: byte] div 8 = 1 \<and>
   \<not> rows_copied (length [1, 2, 3, 4, 5, 6, 7, 8, 9, 10 :: byte] div 8) 2 8
        [99, 99, 99, 99] [1, 2, 3, 4, 5, 6, 7, 8, 9, 10] [1, 2, 9, 10]"
proof -
  have run: "CopyImageLines [99, 99, 99, 99] 2 [1, 2, 3, 4, 5, 6, 7, 8, 9, 10] 8
               = Some (Inr [1, 2, 9, 10])"
    by code_simp
  have "\<not> rows_copied 1 2 8 [99, 99, 99, 99] [1, 2, 3, 4, 5, 6, 7, 8, 9, 10] [1, 2, 9, 10]"
  proof
    assume "rows_copied 1 2 8 [99, 99, 99, 99] [1, 2, 3, 4, 5, 6, 7, 8, 9, 10] [1, 2, 9, 10]"
    then have frame: "\<forall>j<length [99, 99, 99, 99 :: byte].
        (\<forall>k<1. \<not> (k * 2 \<le> j \<and> j < k * 2 + min 2 8))
          \<longrightarrow> [1, 2, 9, 10 :: byte] ! j = [99, 99, 99, 99] ! j"
      unfolding rows_copied_def by blast
    have "[1, 2, 9, 10 :: byte] ! 2 = [99, 99, 99, 99] ! 2"
      by (rule frame [rule_format, of 2]) auto
    then show False by simp
  qed
  with run show ?thesis by simp
qed

text \<open>
  C7, amended. Let \<open>iStride\<close> be positive and \<open>h\<close> the number of offsets
  \<open>0, iStride, 2 * iStride, ...\<close> below \<open>len(iPix)\<close>, that is \<open>len(iPix) / iStride\<close>
  rounded up; let the window of \<open>min oStride iStride\<close> bytes of each of these \<open>h\<close>
  rows lie within the source and within the destination. Then \<open>CopyImageLines\<close>
  returns; for each row \<open>k < h\<close> the bytes \<open>k * oStride + c\<close> of the destination,
  \<open>c < min oStride iStride\<close>, are the bytes \<open>k * iStride + c\<close> of the source; every
  other byte of the destination keeps its value.
\<close>

theorem CopyImageLines_copies_rows:
  fixes oStride iStride h :: nat
  assumes "0 < iStride"
    and "h = (length iPix + iStride - 1) div iStride"
    and "\<forall>k<h. k * iStride + min oStride iStride \<le> length iPix"
    and "\<forall>k<h. k * oStride + min oStride iStride \<le> length oPix"
  shows "\<exists>res. CopyImageLines oPix (int oStride) iPix (int iStride) = Some (Inr res) \<and>
           rows_copied h oStride iStride oPix iPix res"
proof -
  have below: "r < h \<longleftrightarrow> r * iStride < length iPix" for r
    unfolding assms(2) using assms(1) by (rule row_below_length)
  have "\<not> h * iStride < length iPix" using below [of h] by simp
  then have ended: "length iPix \<le> (0 + h) * iStride" by simp
  have "\<exists>res. CopyImageLines_loop (int oStride) (int iStride) (int (min oStride iStride)) iPix oPix
             (int (0 * oStride)) (int (0 * iStride)) = Some (Inr res) \<and>
           length res = length oPix \<and>
           (\<forall>r c. 0 \<le> r \<and> r < 0 + h \<and> c < min oStride iStride
               \<longrightarrow> res ! (r * oStride + c) = iPix ! (r * iStride + c)) \<and>
           (\<forall>j < length oPix.
              (\<forall>r. 0 \<le> r \<and> r < 0 + h \<longrightarrow> \<not> (r * oStride \<le> j \<and> j < r * oStride + min oStride iStride))
               \<longrightarrow> res ! j = oPix ! j)"
  proof (rule loop_rows [OF _ ended])
    show "min oStride iStride \<le> oStride" by simp
    show "\<And>r. r < 0 + h \<Longrightarrow> r * iStride < length iPix" using below by simp
    show "\<And>r. r < 0 + h \<Longrightarrow> r * iStride + min oStride iStride \<le> length iPix"
      using assms(3) by simp
    show "\<And>r. r < 0 + h \<Longrightarrow> r * oStride + min oStride iStride \<le> length oPix"
      using assms(4) by simp
  qed
  then obtain res where
    "CopyImageLines_loop (int oStride) (int iStride) (int (min oStride iStride)) iPix oPix 0 0
       = Some (Inr res)"
    "length res = length oPix"
    "\<And>r c. r < h \<Longrightarrow> c < min oStride iStride
        \<Longrightarrow> res ! (r * oStride + c) = iPix ! (r * iStride + c)"
    "\<And>j. j < length oPix \<Longrightarrow>
        (\<forall>r<h. \<not> (r * oStride \<le> j \<and> j < r * oStride + min oStride iStride))
        \<Longrightarrow> res ! j = oPix ! j"
    by auto
  then show ?thesis
    unfolding CopyImageLines_def Min_int_nat rows_copied_def by (intro exI [of _ res]) simp
qed

theorem CopyImageLines_copies_rows_witness:
  "(0::nat) < 8 \<and>
   (2::nat) = (length [1, 2, 3, 4, 5, 6, 7, 8, 9, 10, 11, 12, 13, 14, 15, 16 :: byte] + 8 - 1) div 8 \<and>
   CopyImageLines [99, 99, 99, 99, 99, 99, 99, 99, 99, 99, 99, 99, 99] 6
     [1, 2, 3, 4, 5, 6, 7, 8, 9, 10, 11, 12, 13, 14, 15, 16] 8
     = Some (Inr [1, 2, 3, 4, 5, 6, 9, 10, 11, 12, 13, 14, 99]) \<and>
   rows_copied 2 6 8 [99, 99, 99, 99, 99, 99, 99, 99, 99, 99, 99, 99, 99]
     [1, 2, 3, 4, 5, 6, 7, 8, 9, 10, 11, 12, 13, 14, 15, 16]
     [1, 2, 3, 4, 5, 6, 9, 10, 11, 12, 13, 14, 99] \<and>
   (2::nat) = (length [1, 2, 3, 4, 5, 6, 7, 8, 9, 10 :: byte] + 8 - 1) div 8 \<and>
   CopyImageLines [99, 99, 99, 99] 2 [1, 2, 3, 4, 5, 6, 7, 8, 9, 10] 8 = Some (Inr [1, 2, 9, 10]) \<and>
   rows_copied 2 2 8 [99, 99, 99, 99] [1, 2, 3, 4, 5, 6, 7, 8, 9, 10] [1, 2, 9, 10]"
proof -
  let ?src = "[1, 2, 3, 4, 5, 6, 7, 8, 9, 10, 11, 12, 13, 14, 15, 16 :: byte]"
  let ?dst = "[99, 99, 99, 99, 99, 99, 99, 99, 99, 99, 99, 99, 99 :: byte]"
  let ?src' = "[1, 2, 3, 4, 5, 6, 7, 8, 9, 10 :: byte]"
  let ?dst' = "[99, 99, 99, 99 :: byte]"
  have pos: "(0::nat) < 8" by simp
  have h: "(2::nat) = (length ?src + 8 - 1) div 8" by simp
  have src: "\<forall>k<2. k * 8 + min 6 8 \<le> length ?src" by auto
  have dst: "\<forall>k<2. k * 6 + min 6 8 \<le> length ?dst" by auto
  have run: "CopyImageLines ?dst 6 ?src 8 = Some (Inr [1, 2, 3, 4, 5, 6, 9, 10, 11, 12, 13, 14, 99])"
    by code_simp
  have h': "(2::nat) = (length ?src' + 8 - 1) div 8" by simp
  have src': "\<forall>k<2. k * 8 + min 2 8 \<le> length ?src'" by auto
  have dst': "\<forall>k<2. k * 2 + min 2 8 \<le> length ?dst'" by auto
  have run': "CopyImageLines ?dst' 2 ?src' 8 = Some (Inr [1, 2, 9, 10])"
    by code_simp
  from CopyImageLines_copies_rows [OF pos h src dst] run
  have A: "rows_copied 2 6 8 ?dst ?src [1, 2, 3, 4, 5, 6, 9, 10, 11, 12, 13, 14, 99]" by auto
  from CopyImageLines_copies_rows [OF pos h' src' dst'] run'
  have B: "rows_copied 2 2 8 ?dst' ?src' [1, 2, 9, 10]" by auto
  from A B run run' show ?thesis by simp
qed

section \<open>The pixel-by-pixel copy\<close>

lemma for_range_invariant:
  assumes "P s" "\<And>i s. P s \<Longrightarrow> \<exists>s'. body i s = Inr s' \<and> P s'"
  shows "\<exists>s'. for_range xs body s = Inr s' \<and> P s'"
  using assms(1)
proof (induction xs arbitrary: s)
  case Nil
  then show ?case by simp
next
  case (Cons i xs)
  from assms(2) [OF Cons.prems] obtain s1 where "body i s = Inr s1" "P s1" by blast
  then show ?case using Cons.IH [of s1] by (simp add: bind_panic_def)
qed

lemma At_non_nil: "\<not> is_nil iImg \<Longrightarrow> \<exists>c. At L iImg x y = Inr c"
  by (cases iImg) auto

lemma copy_pixels_returns:
  assumes "\<not> is_nil iImg"
  shows "\<exists>q. copy_pixels setter L iImg left top' width height (Some (p::'i)) = Inr (Some q)"
proof -
  have inner: "\<exists>s'. for_range xs (\<lambda>x xOImg. bind_panic (At L iImg (x + left) (y + top'))
                  (\<lambda>c. Set_ptr setter xOImg x y c)) s = Inr s' \<and> s' \<noteq> None"
    if "s \<noteq> None" for xs y s
  proof (rule for_range_invariant [where P = "\<lambda>s. s \<noteq> None", OF that])
    fix i s
    assume "s \<noteq> (None :: 'i option)"
    then obtain q where "s = Some q" by auto
    moreover obtain c where "At L iImg (i + left) (y + top') = Inr c"
      using At_non_nil [OF assms] by blast
    ultimately show "\<exists>s'. bind_panic (At L iImg (i + left) (y + top')) (\<lambda>c. Set_ptr setter s i y c) = Inr s' \<and> s' \<noteq> None"
      by (simp add: bind_panic_def)
  qed
  have "\<exists>s'. copy_pixels setter L iImg left top' width height (Some p) = Inr s' \<and> s' \<noteq> None"
    unfolding copy_pixels_def
    by (rule for_range_invariant [where P = "\<lambda>s. s \<noteq> None"]) (simp, rule inner)
  then show ?thesis by auto
qed

section \<open>Properties of the image copies\<close>

text \<open>
  C8. For a destination and a source that are not nil pointers, \<open>SlowImageCopy\<close>
  returns, and its error is not nil exactly when the dynamic type of the destination is
  none of \<open>*image.RGBA\<close>, \<open>*image.NRGBA\<close> and \<open>*ebiten.Image\<close>; with that error
  the destination is returned as it was.
\<close>

theorem SlowImageCopy_error_iff:
  assumes "\<not> is_nil oImg" "\<not> is_nil iImg"
  shows "\<exists>oImg' err. SlowImageCopy L oImg iImg = Inr (oImg', err) \<and>
           (err \<noteq> None \<longleftrightarrow> \<not> supports_Set oImg) \<and>
           (err \<noteq> None \<longrightarrow> oImg' = oImg)"
proof -
  obtain ib where ib: "Bounds L iImg = Inr ib" using assms(2) by (cases iImg) auto
  obtain ob where ob: "Bounds L oImg = Inr ob" using assms(1) by (cases oImg) auto
  show ?thesis
  proof (cases oImg)
    case (EbitenImage p)
    then obtain e where "p = Some e" using assms(1) by auto
    moreover have "\<exists>q. copy_pixels (ebiten_Set L) L iImg (MinX ib) (MinY ib) (Dx ob) (Dy ob) (Some e) = Inr (Some q)"
      using assms(2) by (rule copy_pixels_returns)
    then obtain q where "copy_pixels (ebiten_Set L) L iImg (MinX ib) (MinY ib) (Dx ob) (Dy ob) (Some e) = Inr (Some q)"
      by blast
    ultimately show ?thesis using EbitenImage ib ob
      by (simp add: SlowImageCopy_def bind_panic_def)
  next
    case (ImageRGBA p)
    then obtain e where "p = Some e" using assms(1) by auto
    moreover have "\<exists>q. copy_pixels (RGBA_Set L) L iImg (MinX ib) (MinY ib) (Dx ob) (Dy ob) (Some e) = Inr (Some q)"
      using assms(2) by (rule copy_pixels_returns)
    then obtain q where "copy_pixels (RGBA_Set L) L iImg (MinX ib) (MinY ib) (Dx ob) (Dy ob) (Some e) = Inr (Some q)"
      by blast
    ultimately show ?thesis using ImageRGBA ib ob
      by (simp add: SlowImageCopy_def bind_panic_def)
  next
    case (ImageNRGBA p)
    then obtain e where "p = Some e" using assms(1) by auto
    moreover have "\<exists>q. copy_pixels (NRGBA_Set L) L iImg (MinX ib) (MinY ib) (Dx ob) (Dy ob) (Some e) = Inr (Some q)"
      using assms(2) by (rule copy_pixels_returns)
    then obtain q where "copy_pixels (NRGBA_Set L) L iImg (MinX ib) (MinY ib) (Dx ob) (Dy ob) (Some e) = Inr (Some q)"
      by blast
    ultimately show ?thesis using ImageNRGBA ib ob
      by (simp add: SlowImageCopy_def bind_panic_def)
  next
    case (OtherImage x)
    then show ?thesis using ib ob
      by (simp add: SlowImageCopy_def bind_panic_def)
  qed
qed

theorem SlowImageCopy_error_iff_witness:
  "\<forall>L :: ('e, unit) Library.
     \<not> is_nil (OtherImage () :: ('e, unit) Image) \<and>
     \<not> is_nil (ImageNRGBA (Some \<lparr>Pix = [0, 0, 0, 0], Stride = 4,
         Rect = \<lparr>MinX = 0, MinY = 0, MaxX = 1, MaxY = 1\<rparr>\<rparr>) :: ('e, unit) Image) \<and>
     \<not> is_nil (ImageRGBA (Some \<lparr>Pix = [10, 20, 30, 40], Stride = 4,
         Rect = \<lparr>MinX = 5, MinY = 7, MaxX = 6, MaxY = 8\<rparr>\<rparr>) :: ('e, unit) Image) \<and>
     (\<exists>msg. SlowImageCopy L (OtherImage ())
         (ImageRGBA (Some \<lparr>Pix = [10, 20, 30, 40], Stride = 4,
            Rect = \<lparr>MinX = 5, MinY = 7, MaxX = 6, MaxY = 8\<rparr>\<rparr>))
       = Inr (OtherImage (), Some msg)) \<and>
     SlowImageCopy L
         (ImageNRGBA (Some \<lparr>Pix = [0, 0, 0, 0], Stride = 4,
            Rect = \<lparr>MinX = 0, MinY = 0, MaxX = 1, MaxY = 1\<rparr>\<rparr>))
         (ImageRGBA (Some \<lparr>Pix = [10, 20, 30, 40], Stride = 4,
            Rect = \<lparr>MinX = 5, MinY = 7, MaxX = 6, MaxY = 8\<rparr>\<rparr>))
       = Inr (ImageNRGBA (Some (NRGBA_Set L
                \<lparr>Pix = [0, 0, 0, 0], Stride = 4, Rect = \<lparr>MinX = 0, MinY = 0, MaxX = 1, MaxY = 1\<rparr>\<rparr>
                0 0
                (RGBA_At L \<lparr>Pix = [10, 20, 30, 40], Stride = 4,
                   Rect = \<lparr>MinX = 5, MinY = 7, MaxX = 6, MaxY = 8\<rparr>\<rparr> 5 7))),
              None)"
proof
  fix L :: "('e, unit) Library"
  let ?src = "ImageRGBA (Some \<lparr>Pix = [10, 20, 30, 40], Stride = 4,
         Rect = \<lparr>MinX = 5, MinY = 7, MaxX = 6, MaxY = 8\<rparr>\<rparr>) :: ('e, unit) Image"
  let ?dst = "ImageNRGBA (Some \<lparr>Pix = [0, 0, 0, 0], Stride = 4,
         Rect = \<lparr>MinX = 0, MinY = 0, MaxX = 1, MaxY = 1\<rparr>\<rparr>) :: ('e, unit) Image"
  have one: "[0..(0::int)] = [0]" by (simp add: upto.simps)
  show "\<not> is_nil (OtherImage () :: ('e, unit) Image) \<and> \<not> is_nil ?dst \<and> \<not> is_nil ?src \<and>
     (\<exists>msg. SlowImageCopy L (OtherImage ()) ?src = Inr (OtherImage (), Some msg)) \<and>
     SlowImageCopy L ?dst ?src
       = Inr (ImageNRGBA (Some (NRGBA_Set L
                \<lparr>Pix = [0, 0, 0, 0], Stride = 4, Rect = \<lparr>MinX = 0, MinY = 0, MaxX = 1, MaxY = 1\<rparr>\<rparr>
                0 0
                (RGBA_At L \<lparr>Pix = [10, 20, 30, 40], Stride = 4,
                   Rect = \<lparr>MinX = 5, MinY = 7, MaxX = 6, MaxY = 8\<rparr>\<rparr> 5 7))),
              None)"
    using SlowImageCopy_error_iff [of "OtherImage ()" ?src L]
      SlowImageCopy_error_iff [of ?dst ?src L]
    by (simp add: SlowImageCopy_def copy_pixels_def bind_panic_def Dx_def Dy_def one)
qed


text \<open>
  C4. \<open>CopyImage\<close> on an image whose dynamic type is none of the three: the call
  \<open>SlowImageCopy(oImg, iImg)\<close> receives the nil \<open>*image.NRGBA\<close> as its source, and
  the first statement of \<open>SlowImageCopy\<close>, \<open>iImg.Bounds()\<close>, panics. No copy is
  returned, whatever the image and the library are.
\<close>

theorem CopyImage_other_type_panics: "CopyImage L (OtherImage x) mipmaps = Some (Inl NilPointerDereference)"
  by (simp add: CopyImage_def SlowImageCopy_def bind_panic_def Let_def)



end
